theory Spec2Isabelle
  imports Main "HOL-Library.Word"
begin

section \<open>The password resource of mgmt (resources/password.go)\<close>

text \<open>
  The resource keeps a token file under its own path. In saved mode the file holds the
  generated password in clear text, otherwise it is an empty token and the password lives
  in memory only. Go strings are byte strings, so they are \<^typ>\<open>string\<close> here
  (an Isabelle \<^typ>\<open>char\<close> is one byte), and \<open>uint16\<close> is a 16-bit word.
\<close>

type_synonym uint16 = "16 word"

subsection \<open>Constants\<close>

definition alphabet :: string where
  "alphabet = ''abcdefghijklmnopqrstuvwxyzABCDEFGHIJKLMNOPQRSTUVWXYZ''"

definition newline :: string where
  "newline = [CHR 0x0A]"

subsection \<open>Errors\<close>

text \<open>
  Every error value the file can produce. The \<open>fmt.Errorf\<close> messages are kept as
  constructors, with the formatted argument as the constructor's argument:
  \<^item> \<open>ErrNotExist\<close>: the error of \<open>os.Open\<close> on a missing file, the one
    \<open>os.IsNotExist\<close> recognises;
  \<^item> \<open>ErrIO\<close>: any other error of the operating system;
  \<^item> \<open>ErrRand\<close>: the random reader failed;
  \<^item> \<open>ErrPasswordEmpty\<close>: "password is empty";
  \<^item> \<open>ErrPasswordTooShort\<close>: "password length is too short";
  \<^item> \<open>ErrExpectedEmptyToken\<close>: "Expected empty token only!";
  \<^item> \<open>ErrStringLength n\<close>: "String length is not n";
  \<^item> \<open>ErrInvalidCharacter c\<close>: "Invalid character `c`";
  \<^item> \<open>Wrapf e msg\<close>: \<open>errwrap.Wrapf(e, msg)\<close>;
  \<^item> \<open>Panic\<close>: a run-time panic (index out of range, \<open>rand.Int\<close> with a
    non-positive bound).
\<close>

datatype error =
    ErrNotExist
  | ErrIO
  | ErrRand
  | ErrPasswordEmpty
  | ErrPasswordTooShort
  | ErrExpectedEmptyToken
  | ErrStringLength uint16
  | ErrInvalidCharacter char
  | Wrapf error string
  | Panic

text \<open>\<open>os.IsNotExist\<close> does not look through a wrapped error.\<close>

fun IsNotExist :: "error \<Rightarrow> bool" where
  "IsNotExist ErrNotExist = True"
| "IsNotExist _ = False"

subsection \<open>The resource\<close>

record PasswordRes =
  Length :: uint16
  Saved :: bool
  CheckRecovery :: bool
  Password :: "string option"
  path :: string

text \<open>Validate if the params passed in are valid data.\<close>

definition Validate :: "PasswordRes \<Rightarrow> error option" where
  "Validate obj = None"

subsection \<open>strings.TrimSpace\<close>

text \<open>
  \<open>strings.TrimSpace\<close> removes the leading and the trailing white space of a string, as
  Unicode defines it, rune by rune. A rune decoded at the front (or at the back) of a
  byte string is a white space exactly when the string starts (or ends) with the UTF-8
  encoding of one: tab, line feed, vertical tab, form feed, carriage return, space,
  U+0085, U+00A0, U+1680, U+2000 to U+200A, U+2028, U+2029, U+202F, U+205F, U+3000.
\<close>

definition space_encodings :: "string list" where
  "space_encodings =
    [[CHR 0x09], [CHR 0x0A], [CHR 0x0B], [CHR 0x0C], [CHR 0x0D], [CHR 0x20],
     [CHR 0xC2, CHR 0x85], [CHR 0xC2, CHR 0xA0],
     [CHR 0xE1, CHR 0x9A, CHR 0x80],
     [CHR 0xE2, CHR 0x80, CHR 0x80], [CHR 0xE2, CHR 0x80, CHR 0x81],
     [CHR 0xE2, CHR 0x80, CHR 0x82], [CHR 0xE2, CHR 0x80, CHR 0x83],
     [CHR 0xE2, CHR 0x80, CHR 0x84], [CHR 0xE2, CHR 0x80, CHR 0x85],
     [CHR 0xE2, CHR 0x80, CHR 0x86], [CHR 0xE2, CHR 0x80, CHR 0x87],
     [CHR 0xE2, CHR 0x80, CHR 0x88], [CHR 0xE2, CHR 0x80, CHR 0x89],
     [CHR 0xE2, CHR 0x80, CHR 0x8A],
     [CHR 0xE2, CHR 0x80, CHR 0xA8], [CHR 0xE2, CHR 0x80, CHR 0xA9],
     [CHR 0xE2, CHR 0x80, CHR 0xAF],
     [CHR 0xE2, CHR 0x81, CHR 0x9F],
     [CHR 0xE3, CHR 0x80, CHR 0x80]]"

text \<open>The white-space rune a string starts with, if any, as its encoding.\<close>

definition leading_space :: "string list \<Rightarrow> string \<Rightarrow> string option" where
  "leading_space encs s = find (\<lambda>e. e \<noteq> [] \<and> take (length e) s = e) encs"

function trim_leading :: "string list \<Rightarrow> string \<Rightarrow> string" where
  "trim_leading encs s =
     (case leading_space encs s of
        None \<Rightarrow> s
      | Some e \<Rightarrow> trim_leading encs (drop (length e) s))"
  by pat_completeness auto
termination
proof (relation "measure (\<lambda>(encs, s). length s)")
  show "wf (measure (\<lambda>(encs, s). length s))" by simp
next
  fix encs :: "string list" and s e :: string
  assume "leading_space encs s = Some e"
  then have "e \<noteq> []" and "take (length e) s = e"
    by (auto simp: leading_space_def find_Some_iff)
  then have "0 < length e" by simp
  moreover from \<open>take (length e) s = e\<close> have "length (take (length e) s) = length e"
    by simp
  then have "length e \<le> length s"
    by simp
  ultimately have "length s - length e < length s"
    by arith
  then show "((encs, drop (length e) s), (encs, s)) \<in> measure (\<lambda>(encs, s). length s)"
    by simp
qed

definition TrimLeft :: "string \<Rightarrow> string" where
  "TrimLeft s = trim_leading space_encodings s"

text \<open>Trimming at the back is trimming the reversed string of the reversed encodings.\<close>

definition TrimRight :: "string \<Rightarrow> string" where
  "TrimRight s = rev (trim_leading (map rev space_encodings) (rev s))"

definition TrimSpace :: "string \<Rightarrow> string" where
  "TrimSpace s = TrimRight (TrimLeft s)"

subsection \<open>The file system\<close>

text \<open>
  A file system maps a path to the bytes of the file there. What the operating system
  may refuse is a parameter of each operation: a \<open>read_fault\<close> for \<open>read\<close>, a
  \<open>write_fault\<close> for \<open>write\<close>. \<open>os.Create\<close> creates the file or truncates it;
  a \<open>Write\<close> that fails after \<open>n\<close> bytes leaves these \<open>n\<close> bytes in the file.
\<close>

type_synonym filesystem = "string \<rightharpoonup> string"

datatype read_fault = NoReadFault | OpenFault | ReadAllFault

datatype write_fault = NoWriteFault | CreateFault | WriteFault nat | SyncFault

definition read :: "PasswordRes \<Rightarrow> read_fault \<Rightarrow> filesystem \<Rightarrow> string \<times> error option" where
  "read obj rf fs =
     (if rf = OpenFault then ([], Some ErrIO)
      else case fs (path obj) of
        None \<Rightarrow> ([], Some ErrNotExist)
      | Some data \<Rightarrow>
          if rf = ReadAllFault then ([], Some (Wrapf ErrIO ''could not read from file''))
          else (TrimSpace data, None))"

definition "write" ::
  "PasswordRes \<Rightarrow> string \<Rightarrow> write_fault \<Rightarrow> filesystem \<Rightarrow> (int \<times> error option) \<times> filesystem" where
  "write obj password wflt fs =
     (let data = password @ newline in
      case wflt of
        CreateFault \<Rightarrow> ((- 1, Some (Wrapf ErrIO ''can't create file'')), fs)
      | WriteFault n \<Rightarrow>
          ((int (min n (length data)), Some (Wrapf ErrIO ''can't write file'')),
           fs(path obj \<mapsto> take n data))
      | SyncFault \<Rightarrow> ((int (length data), Some ErrIO), fs(path obj \<mapsto> data))
      | NoWriteFault \<Rightarrow> ((int (length data), None), fs(path obj \<mapsto> data)))"

subsection \<open>Generating a password\<close>

text \<open>
  The random reader is a list of draws, \<open>None\<close> where reading fails; an exhausted list
  fails too. \<open>rand.Int(reader, max)\<close> returns a value in \<open>[0, max)\<close>, and every value in
  that range is possible: the draw \<open>r\<close> gives \<open>r mod max\<close>. It panics when
  \<open>max \<le> 0\<close>.
\<close>

type_synonym entropy = "nat option list"

definition rand_Int :: "int \<Rightarrow> entropy \<Rightarrow> (error + int) \<times> entropy" where
  "rand_Int maxi src =
     (if maxi \<le> 0 then (Inl Panic, src)
      else case src of
        [] \<Rightarrow> (Inl ErrRand, [])
      | None # rest \<Rightarrow> (Inl ErrRand, rest)
      | Some r # rest \<Rightarrow> (Inr (int r mod maxi), rest))"

text \<open>\<open>alphabet[ix]\<close>, which panics out of range.\<close>

definition alphabet_at :: "int \<Rightarrow> error + char" where
  "alphabet_at ix =
     (if 0 \<le> ix \<and> ix < int (length alphabet) then Inr (alphabet ! nat ix) else Inl Panic)"

text \<open>The loop \<open>for i := uint16(0); i < obj.Length; i++\<close> of \<open>generate\<close>, from \<open>i\<close> on.\<close>

function generate_loop ::
  "uint16 \<Rightarrow> uint16 \<Rightarrow> int \<Rightarrow> string \<Rightarrow> entropy \<Rightarrow> (error + string) \<times> entropy" where
  "generate_loop i len maxi output src =
     (if i < len then
        (case rand_Int maxi src of
           (Inl e, src') \<Rightarrow> (Inl (Wrapf e ''could not generate password''), src')
         | (Inr ix, src') \<Rightarrow>
             (case alphabet_at ix of
                Inl e \<Rightarrow> (Inl e, src')
              | Inr c \<Rightarrow> generate_loop (i + 1) len maxi (output @ [c]) src'))
      else (Inr output, src))"
  by pat_completeness auto
termination
proof (relation "measure (\<lambda>(i, len, maxi, output, src). unat len - unat i)")
  show "wf (measure (\<lambda>(i, len, maxi, output, src). unat len - unat i))" by simp
next
  fix i len :: uint16 and maxi :: int and out :: string and src src' :: entropy and c :: char
  assume "i < len"
  then have less: "unat i < unat len" by (simp add: word_less_nat_alt)
  have "unat len < 2 ^ LENGTH(16)" by (rule unsigned_less)
  with less have "unat i + unat (1 :: uint16) < 2 ^ LENGTH(16)" by simp
  then have "unat (i + 1) = unat i + 1"
    by (simp only: unat_add_lem [THEN iffD1] unat_1)
  with less show "((i + 1, len, maxi, out @ [c], src'), (i, len, maxi, out, src))
      \<in> measure (\<lambda>(i, len, maxi, output, src). unat len - unat i)"
    by simp
qed

definition generate :: "PasswordRes \<Rightarrow> entropy \<Rightarrow> (string \<times> error option) \<times> entropy" where
  "generate obj src =
     (let maxi = int (length alphabet) - 1 in
      case generate_loop 0 (Length obj) maxi [] src of
        (Inl e, src') \<Rightarrow> (([], Some e), src')
      | (Inr output, src') \<Rightarrow>
          if output = [] then (([], Some ErrPasswordEmpty), src')
          else if (of_nat (length output) :: uint16) \<noteq> Length obj
            then (([], Some ErrPasswordTooShort), src')
          else ((output, None), src'))"

subsection \<open>Checking a stored value\<close>

text \<open>The inner loop of \<open>check\<close>: is the byte one of the alphabet's, from \<open>j\<close> on?\<close>

fun in_alphabet_from :: "string \<Rightarrow> char \<Rightarrow> bool" where
  "in_alphabet_from [] c = False"
| "in_alphabet_from (a # as) c = (if c = a then True else in_alphabet_from as c)"

text \<open>The outer loop, from \<open>i\<close> on. \<open>value[i]\<close> panics out of range.\<close>

function check_loop :: "uint16 \<Rightarrow> uint16 \<Rightarrow> string \<Rightarrow> error option" where
  "check_loop i len val =
     (if i < len then
        (if unat i < length val then
           (if in_alphabet_from alphabet (val ! unat i) then check_loop (i + 1) len val
            else Some (ErrInvalidCharacter (val ! unat i)))
         else Some Panic)
      else None)"
  by pat_completeness auto
termination
proof (relation "measure (\<lambda>(i, len, val). unat len - unat i)")
  show "wf (measure (\<lambda>(i, len, val). unat len - unat i))" by simp
next
  fix i len :: uint16 and val :: string
  assume "i < len"
  then have less: "unat i < unat len" by (simp add: word_less_nat_alt)
  have "unat len < 2 ^ LENGTH(16)" by (rule unsigned_less)
  with less have "unat i + unat (1 :: uint16) < 2 ^ LENGTH(16)" by simp
  then have "unat (i + 1) = unat i + 1"
    by (simp only: unat_add_lem [THEN iffD1] unat_1)
  with less show "((i + 1, len, val), (i, len, val)) \<in> measure (\<lambda>(i, len, val). unat len - unat i)"
    by simp
qed

definition check :: "PasswordRes \<Rightarrow> string \<Rightarrow> error option" where
  "check obj val =
     (let len = (of_nat (length val) :: uint16) in
      if \<not> Saved obj \<and> len = 0 then None
      else if \<not> Saved obj \<and> len \<noteq> 0 then Some ErrExpectedEmptyToken
      else if len \<noteq> Length obj then Some (ErrStringLength (Length obj))
      else check_loop 0 len val)"

subsection \<open>CheckApply\<close>

text \<open>
  What \<open>CheckApply\<close> reads and changes besides the resource itself: the file system, the
  random reader and the log. The log keeps one event for each \<open>log.Printf\<close> of the
  method: "Integrity check failed", "Generating new password...", "Writing password
  token...".
\<close>

datatype log_event = LogIntegrityCheckFailed | LogGenerating | LogWriting

record world =
  files :: filesystem
  rnd :: entropy
  logs :: "log_event list"

definition log_Printf :: "log_event \<Rightarrow> world \<Rightarrow> world" where
  "log_Printf ev w = w\<lparr>logs := logs w @ [ev]\<rparr>"

text \<open>
  The end of the method, from \<open>obj.Password = &password\<close> on: the password goes to
  memory, and to the file when \<open>write\<close> is set.
\<close>

definition save_password ::
  "PasswordRes \<Rightarrow> string \<Rightarrow> bool \<Rightarrow> write_fault \<Rightarrow> world
     \<Rightarrow> (bool \<times> error option) \<times> PasswordRes \<times> world" where
  "save_password obj password need_write wflt w =
     (let obj' = obj\<lparr>Password := Some password\<rparr> in
      if need_write then
        (let output = (if Saved obj' then password else []);
             w' = log_Printf LogWriting w
         in case write obj' output wflt (files w') of
              ((c, Some e), fs') \<Rightarrow>
                ((False, Some (Wrapf e ''can't write to file'')), obj', w'\<lparr>files := fs'\<rparr>)
            | ((c, None), fs') \<Rightarrow> ((False, None), obj', w'\<lparr>files := fs'\<rparr>))
      else ((False, None), obj', w))"

text \<open>The part under \<open>apply\<close>: generate when \<open>generate\<close> is set, then save.\<close>

definition apply_changes ::
  "PasswordRes \<Rightarrow> string \<Rightarrow> bool \<Rightarrow> bool \<Rightarrow> write_fault \<Rightarrow> world
     \<Rightarrow> (bool \<times> error option) \<times> PasswordRes \<times> world" where
  "apply_changes obj password need_generate need_write wflt w =
     (if need_generate then
        (let need_write' = (if Saved obj \<or> (\<not> Saved obj \<and> password \<noteq> []) then True else need_write);
             w' = log_Printf LogGenerating w
         in case generate obj (rnd w') of
              ((password', Some e), src') \<Rightarrow>
                ((False, Some (Wrapf e ''could not generate password'')), obj, w'\<lparr>rnd := src'\<rparr>)
            | ((password', None), src') \<Rightarrow>
                save_password obj password' need_write' wflt (w'\<lparr>rnd := src'\<rparr>))
      else save_password obj password need_write wflt w)"

text \<open>
  The decisions once the token is read and checked: \<open>generate0\<close> and \<open>write0\<close> are the
  flags as the check left them.
\<close>

definition decide ::
  "PasswordRes \<Rightarrow> bool \<Rightarrow> bool \<Rightarrow> string \<Rightarrow> bool \<Rightarrow> bool \<Rightarrow> bool \<Rightarrow> write_fault \<Rightarrow> world
     \<Rightarrow> (bool \<times> error option) \<times> PasswordRes \<times> world" where
  "decide obj refresh apply password exists generate0 write0 wflt w =
     (let need_generate =
            (if refresh \<or> \<not> exists \<or> (Saved obj \<and> password = []) then True else generate0);
          need_write =
            (if Saved obj \<and> (case Password obj of None \<Rightarrow> False | Some p \<Rightarrow> p \<noteq> password)
             then True else write0)
      in if \<not> refresh \<and> exists \<and> \<not> need_generate \<and> \<not> need_write then ((True, None), obj, w)
         else if \<not> apply then ((False, None), obj, w)
         else apply_changes obj password need_generate need_write wflt w)"

text \<open>
  The method. \<open>refresh\<close> is what \<open>obj.Refresh()\<close> returns, \<open>rflt\<close> and \<open>wflt\<close>
  are what the operating system refuses during this call.
\<close>

definition CheckApply ::
  "PasswordRes \<Rightarrow> bool \<Rightarrow> bool \<Rightarrow> read_fault \<Rightarrow> write_fault \<Rightarrow> world
     \<Rightarrow> (bool \<times> error option) \<times> PasswordRes \<times> world" where
  "CheckApply obj refresh apply rflt wflt w =
     (case read obj rflt (files w) of
        (password, Some e) \<Rightarrow>
          if \<not> IsNotExist e then ((False, Some (Wrapf e ''unknown read error'')), obj, w)
          else decide obj refresh apply password False False True wflt w
      | (password, None) \<Rightarrow>
          (case check obj password of
             Some e \<Rightarrow>
               if \<not> CheckRecovery obj then ((False, Some (Wrapf e ''check failed'')), obj, w)
               else decide obj refresh apply password True True True wflt
                      (log_Printf LogIntegrityCheckFailed w)
           | None \<Rightarrow> decide obj refresh apply password True False False wflt w))"

section \<open>Auxiliary facts\<close>

declare generate_loop.simps [simp del]
declare check_loop.simps [simp del]
declare trim_leading.simps [simp del]

lemma length_alphabet: "length alphabet = 52"
  by (simp add: alphabet_def)

text \<open>A loop counter below its bound does not wrap when it is incremented.\<close>

lemma unat_succ_less:
  fixes i len :: uint16
  assumes "i < len"
  shows "unat (i + 1) = Suc (unat i)"
proof -
  from assms have less: "unat i < unat len" by (simp add: word_less_nat_alt)
  have "unat len < 2 ^ LENGTH(16)" by (rule unsigned_less)
  with less have "unat i + unat (1 :: uint16) < 2 ^ LENGTH(16)" by simp
  then have "unat (i + 1) = unat i + 1"
    by (simp only: unat_add_lem [THEN iffD1] unat_1)
  then show ?thesis by simp
qed

lemma unat_len16: "unat (of_nat n :: uint16) = n mod 65536"
  by (simp add: unat_of_nat)

subsection \<open>The random draws\<close>

lemma rand_Int_range:
  assumes "rand_Int maxi src = (Inr ix, src')"
  shows "0 \<le> ix \<and> ix < maxi"
  using assms
  by (auto simp: rand_Int_def split: if_splits list.splits option.splits)

lemma rand_Int_Some:
  "0 < maxi \<Longrightarrow> rand_Int maxi (Some r # rest) = (Inr (int (r mod nat maxi)), rest)"
  by (simp add: rand_Int_def nat_mod_distrib zmod_int)

lemma alphabet_at_nat:
  "k < length alphabet \<Longrightarrow> alphabet_at (int k) = Inr (alphabet ! k)"
  by (simp add: alphabet_at_def)

lemma alphabet_at_take:
  assumes "alphabet_at ix = Inr c" and "ix < maxi"
  shows "c \<in> set (take (nat maxi) alphabet)"
proof -
  from assms have ix: "0 \<le> ix" "ix < int (length alphabet)" and c: "c = alphabet ! nat ix"
    by (auto simp: alphabet_at_def split: if_splits)
  from ix assms(2) have "nat ix < length (take (nat maxi) alphabet)" by simp
  moreover from ix assms(2) have "take (nat maxi) alphabet ! nat ix = alphabet ! nat ix" by simp
  ultimately show ?thesis unfolding c by (metis nth_mem)
qed

subsection \<open>The loop of generate\<close>

lemma generate_loop_length:
  "generate_loop i len maxi out src = (Inr res, src') \<Longrightarrow>
     length res = length out + (unat len - unat i)"
proof (induction i len maxi out src rule: generate_loop.induct)
  case (1 i len maxi out src)
  show ?case
  proof (cases "i < len")
    case False
    then have "unat len \<le> unat i" by (simp add: word_less_nat_alt)
    with False "1.prems" show ?thesis by (simp add: generate_loop.simps)
  next
    case True
    then have less: "unat i < unat len" by (simp add: word_less_nat_alt)
    from True "1.prems" obtain ix s1 c where
      r: "rand_Int maxi src = (Inr ix, s1)" and a: "alphabet_at ix = Inr c"
      and rest: "generate_loop (i + 1) len maxi (out @ [c]) s1 = (Inr res, src')"
      by (auto simp: generate_loop.simps [of i] split: prod.splits sum.splits)
    from "1.IH" [OF True r [symmetric] refl a rest]
    have "length res = length (out @ [c]) + (unat len - unat (i + 1))" .
    with less unat_succ_less [OF True] show ?thesis by simp
  qed
qed

lemma generate_loop_chars:
  "generate_loop i len maxi out src = (Inr res, src') \<Longrightarrow>
     set res \<subseteq> set out \<union> set (take (nat maxi) alphabet)"
proof (induction i len maxi out src rule: generate_loop.induct)
  case (1 i len maxi out src)
  show ?case
  proof (cases "i < len")
    case False
    with "1.prems" show ?thesis by (simp add: generate_loop.simps)
  next
    case True
    from True "1.prems" obtain ix s1 c where
      r: "rand_Int maxi src = (Inr ix, s1)" and a: "alphabet_at ix = Inr c"
      and rest: "generate_loop (i + 1) len maxi (out @ [c]) s1 = (Inr res, src')"
      by (auto simp: generate_loop.simps [of i] split: prod.splits sum.splits)
    from "1.IH" [OF True r [symmetric] refl a rest]
    have "set res \<subseteq> set (out @ [c]) \<union> set (take (nat maxi) alphabet)" .
    moreover from rand_Int_range [OF r] alphabet_at_take [OF a]
    have "c \<in> set (take (nat maxi) alphabet)" by simp
    ultimately show ?thesis by auto
  qed
qed

text \<open>With a draw for every position the loop runs to its end.\<close>

lemma generate_loop_enough:
  assumes "0 < maxi" and "maxi \<le> int (length alphabet)"
  shows "length rs = unat len - unat i \<Longrightarrow>
     generate_loop i len maxi out (map Some rs @ rest)
       = (Inr (out @ map (\<lambda>r. alphabet ! (r mod nat maxi)) rs), rest)"
proof (induction rs arbitrary: i out)
  case Nil
  then have "\<not> i < len" by (simp add: word_less_nat_alt)
  then show ?case by (simp add: generate_loop.simps)
next
  case (Cons r rs)
  then have less: "unat i < unat len" by simp
  then have True: "i < len" by (simp add: word_less_nat_alt)
  from assms have "0 < nat maxi" and "nat maxi \<le> length alphabet" by simp_all
  then have "r mod nat maxi < length alphabet"
    by (metis mod_less_divisor less_le_trans)
  then have a: "alphabet_at (int (r mod nat maxi)) = Inr (alphabet ! (r mod nat maxi))"
    by (rule alphabet_at_nat)
  from Cons.prems less unat_succ_less [OF True] have "length rs = unat len - unat (i + 1)"
    by simp
  from Cons.IH [OF this]
  have "generate_loop (i + 1) len maxi (out @ [alphabet ! (r mod nat maxi)]) (map Some rs @ rest)
      = (Inr ((out @ [alphabet ! (r mod nat maxi)]) @ map (\<lambda>r. alphabet ! (r mod nat maxi)) rs), rest)" .
  with True a rand_Int_Some [OF assms(1)] show ?case
    by (simp add: generate_loop.simps [of i])
qed

subsection \<open>generate\<close>

lemma generate_Inr:
  assumes "generate obj src = ((out, None), src')"
  shows "generate_loop 0 (Length obj) 51 [] src = (Inr out, src')" and "out \<noteq> []"
  using assms
  by (auto simp: generate_def length_alphabet Let_def split: prod.splits sum.splits if_splits)

lemma generate_sound:
  assumes "generate obj src = ((out, None), src')"
  shows "length out = unat (Length obj)" and "set out \<subseteq> set (take 51 alphabet)"
proof -
  note loop = generate_Inr(1) [OF assms]
  from generate_loop_length [OF loop] show "length out = unat (Length obj)" by simp
  from generate_loop_chars [OF loop] show "set out \<subseteq> set (take 51 alphabet)" by simp
qed

lemma generate_enough:
  assumes "Length obj \<noteq> 0" and "length rs = unat (Length obj)"
  shows "generate obj (map Some rs @ rest) = ((map (\<lambda>r. alphabet ! (r mod 51)) rs, None), rest)"
proof -
  have "generate_loop 0 (Length obj) 51 [] (map Some rs @ rest)
      = (Inr ([] @ map (\<lambda>r. alphabet ! (r mod nat 51)) rs), rest)"
    by (rule generate_loop_enough) (simp_all add: length_alphabet assms)
  moreover from assms have "rs \<noteq> []" by (auto simp: unat_eq_0)
  ultimately show ?thesis
    using assms by (simp add: generate_def length_alphabet)
qed

lemma generate_zero:
  assumes "Length obj = 0"
  shows "generate obj src = (([], Some ErrPasswordEmpty), src)"
  using assms by (simp add: generate_def generate_loop.simps)

subsection \<open>check\<close>

lemma in_alphabet_from_set: "in_alphabet_from as c \<longleftrightarrow> c \<in> set as"
  by (induction as) auto

text \<open>The loop returns the first byte, from \<open>i\<close> on, that is not in the alphabet.\<close>

lemma check_loop_find:
  "unat len \<le> length val \<Longrightarrow>
   check_loop i len val =
     map_option ErrInvalidCharacter
       (find (\<lambda>c. c \<notin> set alphabet) (drop (unat i) (take (unat len) val)))"
proof (induction i len val rule: check_loop.induct)
  case (1 i len val)
  show ?case
  proof (cases "i < len")
    case False
    then have "unat len \<le> unat i" by (simp add: word_less_nat_alt)
    with False show ?thesis by (simp add: check_loop.simps [of i])
  next
    case True
    then have less: "unat i < unat len" by (simp add: word_less_nat_alt)
    with "1.prems" have inr: "unat i < length val" by simp
    from less "1.prems" have "unat i < length (take (unat len) val)" by simp
    then have dr: "drop (unat i) (take (unat len) val)
        = take (unat len) val ! unat i # drop (Suc (unat i)) (take (unat len) val)"
      by (rule Cons_nth_drop_Suc [symmetric])
    from less have nth: "take (unat len) val ! unat i = val ! unat i" by simp
    show ?thesis
    proof (cases "val ! unat i \<in> set alphabet")
      case False
      with True inr dr nth show ?thesis
        by (simp add: check_loop.simps [of i] in_alphabet_from_set)
    next
      case mem: True
      with True inr have "in_alphabet_from alphabet (val ! unat i)"
        by (simp add: in_alphabet_from_set)
      from "1.IH" [OF True inr this "1.prems"]
      have "check_loop (i + 1) len val = map_option ErrInvalidCharacter
         (find (\<lambda>c. c \<notin> set alphabet) (drop (unat (i + 1)) (take (unat len) val)))" .
      with True inr mem dr nth unat_succ_less [OF True] show ?thesis
        by (simp add: check_loop.simps [of i] in_alphabet_from_set)
    qed
  qed
qed

text \<open>
  What \<open>check\<close> computes for every value: only the length modulo \<open>2 ^ 16\<close> counts, and
  only that many bytes are looked at.
\<close>

lemma check_eq:
  "check obj val =
     (let n = length val mod 65536 in
      if \<not> Saved obj then (if n = 0 then None else Some ErrExpectedEmptyToken)
      else if n \<noteq> unat (Length obj) then Some (ErrStringLength (Length obj))
      else map_option ErrInvalidCharacter (find (\<lambda>c. c \<notin> set alphabet) (take n val)))"
proof -
  let ?len = "of_nat (length val) :: uint16"
  have n: "unat ?len = length val mod 65536" by (rule unat_len16)
  then have le: "unat ?len \<le> length val" by simp
  have z: "?len = 0 \<longleftrightarrow> length val mod 65536 = 0"
    using n by (metis unat_eq_0)
  have e: "?len = Length obj \<longleftrightarrow> length val mod 65536 = unat (Length obj)"
    using n by (metis word_unat_eq_iff)
  from check_loop_find [OF le, of 0]
  have "check_loop 0 ?len val =
      map_option ErrInvalidCharacter (find (\<lambda>c. c \<notin> set alphabet) (take (length val mod 65536) val))"
    by (simp add: n)
  then show ?thesis
    by (simp add: check_def Let_def z e)
qed

lemma check_short:
  assumes "length val < 65536"
  shows "check obj val =
     (if \<not> Saved obj then (if val = [] then None else Some ErrExpectedEmptyToken)
      else if length val \<noteq> unat (Length obj) then Some (ErrStringLength (Length obj))
      else map_option ErrInvalidCharacter (find (\<lambda>c. c \<notin> set alphabet) val))"
  using assms by (simp add: check_eq)

lemma find_None_subset: "find (\<lambda>c. c \<notin> A) xs = None \<longleftrightarrow> set xs \<subseteq> A"
  by (auto simp: find_None_iff)

subsection \<open>TrimSpace\<close>

text \<open>A string of letters followed by the newline is trimmed to the letters.\<close>

lemma leading_space_Nil: "leading_space encs [] = None"
  by (auto simp: leading_space_def find_None_iff)

lemma trim_leading_Nil: "trim_leading encs [] = []"
  by (simp add: trim_leading.simps leading_space_Nil)

lemma leading_space_other:
  assumes "\<forall>e \<in> set encs. e \<noteq> [] \<longrightarrow> hd e \<noteq> c"
  shows "leading_space encs (c # s) = None"
proof -
  have "\<not> (e \<noteq> [] \<and> take (length e) (c # s) = e)" if "e \<in> set encs" for e
  proof
    assume h: "e \<noteq> [] \<and> take (length e) (c # s) = e"
    then obtain x xs where e: "e = x # xs" by (cases e) auto
    with h have "x = c" by simp
    with assms that e show False by auto
  qed
  then show ?thesis by (auto simp: leading_space_def find_None_iff)
qed

lemma trim_leading_other:
  assumes "\<forall>e \<in> set encs. e \<noteq> [] \<longrightarrow> hd e \<noteq> c"
  shows "trim_leading encs (c # s) = c # s"
  by (simp add: trim_leading.simps [of _ "c # s"] leading_space_other [OF assms])

lemma letter_no_space:
  assumes "c \<in> set alphabet"
  shows "\<forall>e \<in> set space_encodings. e \<noteq> [] \<longrightarrow> hd e \<noteq> c"
    and "\<forall>e \<in> set (map rev space_encodings). e \<noteq> [] \<longrightarrow> hd e \<noteq> c"
  using assms by (auto simp: space_encodings_def alphabet_def)

lemma trim_leading_letters:
  assumes "set v \<subseteq> set alphabet"
  shows "trim_leading space_encodings (v @ s) = (if v = [] then trim_leading space_encodings s else v @ s)"
    and "trim_leading (map rev space_encodings) (v @ s) = (if v = [] then trim_leading (map rev space_encodings) s else v @ s)"
  using assms by (cases v; simp add: trim_leading_other letter_no_space)+

lemma trim_leading_newline:
  "trim_leading space_encodings (CHR 0x0A # s) = trim_leading space_encodings s"
  "trim_leading (map rev space_encodings) (CHR 0x0A # s) = trim_leading (map rev space_encodings) s"
  by (simp_all add: trim_leading.simps [of _ "CHR 0x0A # s"] leading_space_def space_encodings_def)

lemma TrimSpace_letters:
  assumes "set v \<subseteq> set alphabet"
  shows "TrimSpace (v @ newline) = v"
proof (cases "v = []")
  case True
  then show ?thesis
    by (simp add: TrimSpace_def TrimLeft_def TrimRight_def newline_def trim_leading_newline trim_leading_Nil)
next
  case False
  from assms have r: "set (rev v) \<subseteq> set alphabet" by simp
  from False assms have "TrimLeft (v @ newline) = v @ newline"
    by (simp add: TrimLeft_def trim_leading_letters(1))
  moreover have "TrimRight (v @ newline) = v"
    using False trim_leading_letters(2) [OF r, of "[]"]
    by (simp add: TrimRight_def newline_def trim_leading_newline)
  ultimately show ?thesis by (simp add: TrimSpace_def)
qed

lemma TrimSpace_newline: "TrimSpace newline = []"
  using TrimSpace_letters [of "[]"] by simp

subsection \<open>read\<close>

lemma read_ok:
  "files w (path obj) = Some data \<Longrightarrow> read obj NoReadFault (files w) = (TrimSpace data, None)"
  by (simp add: read_def)

lemma read_missing:
  "fs (path obj) = None \<Longrightarrow>
     read obj rflt fs = ([], Some (if rflt = OpenFault then ErrIO else ErrNotExist))"
  by (simp add: read_def)

subsection \<open>CheckApply\<close>

text \<open>The equations that run the model on a concrete input.\<close>

lemmas run = CheckApply_def read_def write_def check_def check_loop.simps decide_def
  apply_changes_def save_password_def log_Printf_def generate_def generate_loop.simps
  rand_Int_def alphabet_at_def alphabet_def newline_def TrimSpace_def TrimLeft_def
  TrimRight_def trim_leading.simps leading_space_def space_encodings_def

lemma CheckApply_noop:
  assumes "files w (path obj) = Some data"
    and "check obj (TrimSpace data) = None"
    and "Saved obj \<longrightarrow> TrimSpace data \<noteq> [] \<and>
           (Password obj = None \<or> Password obj = Some (TrimSpace data))"
  shows "CheckApply obj False apply NoReadFault wflt w = ((True, None), obj, w)"
  using assms
  by (auto simp: CheckApply_def read_ok decide_def)

lemma generate_checks:
  assumes "generate obj src = ((pw, None), src')"
  shows "check (obj\<lparr>Password := p\<rparr>) (if Saved obj then pw else []) = None"
proof -
  from generate_sound [OF assms] have len: "length pw = unat (Length obj)"
    and sub: "set pw \<subseteq> set alphabet"
    using set_take_subset by fastforce+
  have "unat (Length obj) < 2 ^ LENGTH(16)" by (rule unsigned_less)
  with len have "length pw < 65536" by simp
  from check_short [OF this, of "obj\<lparr>Password := p\<rparr>"] len sub
  have "Saved obj \<Longrightarrow> check (obj\<lparr>Password := p\<rparr>) pw = None"
    by (simp add: find_None_subset)
  then show ?thesis
    by (simp add: check_eq)
qed

lemma CheckApply_recover_step:
  assumes "files w (path obj) = Some data"
    and "check obj (TrimSpace data) = Some e"
    and "CheckRecovery obj"
    and "generate obj (rnd w) = ((pw, None), src')"
  shows "CheckApply obj refresh True NoReadFault NoWriteFault w =
      ((False, None), obj\<lparr>Password := Some pw\<rparr>,
       w\<lparr>files := (files w)(path obj \<mapsto> (if Saved obj then pw else []) @ newline),
         rnd := src',
         logs := logs w @ [LogIntegrityCheckFailed, LogGenerating, LogWriting]\<rparr>)"
  using assms
  by (simp add: CheckApply_def read_ok decide_def apply_changes_def save_password_def
      write_def log_Printf_def)

lemma CheckApply_no_recovery:
  assumes "files w (path obj) = Some data"
    and "check obj (TrimSpace data) = Some e"
    and "\<not> CheckRecovery obj"
  shows "CheckApply obj refresh apply NoReadFault wflt w =
      ((False, Some (Wrapf e ''check failed'')), obj, w)"
  using assms by (simp add: CheckApply_def read_ok)

text \<open>Where a failing call can leave the file.\<close>

lemma save_password_fails:
  assumes "save_password obj password need_write wflt w = ((ok, Some e), obj', w')"
  shows "ok = False \<and> Password obj' = Some password \<and>
    (files w' = files w \<or>
     (\<exists>n. wflt = WriteFault n \<and>
        files w' = (files w)(path obj \<mapsto> take n ((if Saved obj then password else []) @ newline))) \<or>
     (wflt = SyncFault \<and>
        files w' = (files w)(path obj \<mapsto> (if Saved obj then password else []) @ newline)))"
  using assms
  by (cases wflt; cases need_write)
     (auto simp: save_password_def write_def log_Printf_def Let_def split: if_splits)

lemma apply_changes_fails:
  assumes "apply_changes obj password g wr wflt w = ((ok, Some e), obj', w')"
  shows "ok = False \<and>
    (files w' = files w \<or>
     (\<exists>p. Password obj' = Some p \<and>
        ((\<exists>n. wflt = WriteFault n \<and>
            files w' = (files w)(path obj \<mapsto> take n ((if Saved obj then p else []) @ newline))) \<or>
         (wflt = SyncFault \<and>
            files w' = (files w)(path obj \<mapsto> (if Saved obj then p else []) @ newline)))))"
proof (cases g)
  case False
  with assms have "save_password obj password wr wflt w = ((ok, Some e), obj', w')"
    by (simp add: apply_changes_def)
  from save_password_fails [OF this] show ?thesis by auto
next
  case True
  let ?w = "log_Printf LogGenerating w"
  obtain pw gerr src' where g: "generate obj (rnd ?w) = ((pw, gerr), src')"
    by (metis prod.exhaust)
  show ?thesis
  proof (cases gerr)
    case (Some ge)
    with True g assms show ?thesis
      by (auto simp: apply_changes_def log_Printf_def)
  next
    case None
    with True g assms obtain wr' where
      "save_password obj pw wr' wflt (?w\<lparr>rnd := src'\<rparr>) = ((ok, Some e), obj', w')"
      by (auto simp: apply_changes_def Let_def split: if_splits)
    from save_password_fails [OF this] show ?thesis
      by (auto simp: log_Printf_def)
  qed
qed

lemma decide_fails:
  assumes "decide obj refresh apply password exists g0 w0 wflt w = ((ok, Some e), obj', w')"
  shows "ok = False \<and>
    (files w' = files w \<or>
     (\<exists>p. Password obj' = Some p \<and>
        ((\<exists>n. wflt = WriteFault n \<and>
            files w' = (files w)(path obj \<mapsto> take n ((if Saved obj then p else []) @ newline))) \<or>
         (wflt = SyncFault \<and>
            files w' = (files w)(path obj \<mapsto> (if Saved obj then p else []) @ newline)))))"
proof -
  from assms obtain g wr where "apply_changes obj password g wr wflt w = ((ok, Some e), obj', w')"
    by (auto simp: decide_def Let_def split: if_splits)
  then show ?thesis by (rule apply_changes_fails)
qed

section \<open>Validation\<close>

text \<open>
  C10: \<open>Validate\<close> succeeds for every configuration, whatever the length (0 included)
  and the two flags.
\<close>

theorem Validate_accepts_all:
  "Validate \<lparr>Length = l, Saved = s, CheckRecovery = r, Password = p, path = f\<rparr> = None"
  by (simp add: Validate_def)


section \<open>The generation algorithm\<close>

text \<open>
  C3: whenever \<open>generate\<close> returns a password, the password has exactly \<open>Length\<close> bytes and
  each of them is a letter of the alphabet. (A length of 0 never returns one, so the
  length is positive there.)
\<close>

theorem generate_length_and_chars:
  assumes "generate obj src = ((out, None), src')"
  shows "0 < Length obj \<and> length out = unat (Length obj) \<and> set out \<subseteq> set alphabet"
proof -
  from generate_sound(2) [OF assms] have "set out \<subseteq> set alphabet"
    using set_take_subset by fastforce
  moreover from generate_Inr(2) [OF assms] generate_sound(1) [OF assms]
  have "0 < Length obj" by (auto simp: word_greater_zero_iff)
  ultimately show ?thesis using generate_sound(1) [OF assms] by simp
qed

theorem generate_length_and_chars_witness:
  "generate \<lparr>Length = 4, Saved = True, CheckRecovery = False, Password = None, path = ''p''\<rparr>
     [Some 0, Some 50, Some 51, Some 52] = ((''aYab'', None), [])
   \<and> length ''aYab'' = unat (4 :: uint16) \<and> set ''aYab'' \<subseteq> set alphabet"
proof -
  have g: "generate \<lparr>Length = 4, Saved = True, CheckRecovery = False, Password = None, path = ''p''\<rparr>
     [Some 0, Some 50, Some 51, Some 52] = ((''aYab'', None), [])"
    by (simp add: generate_def generate_loop.simps rand_Int_def alphabet_at_def alphabet_def)
  from generate_length_and_chars [OF g] g show ?thesis by simp
qed

text \<open>
  C4: the letter \<open>Z\<close> is in the alphabet, yet no password that \<open>generate\<close> returns
  contains it: the bound handed to \<open>rand.Int\<close> is the last index, 51, and
  \<open>rand.Int\<close> stays below its bound, so the last letter is never drawn.
\<close>

theorem generate_never_Z:
  "CHR ''Z'' \<in> set alphabet \<and>
   (generate obj src = ((out, None), src') \<longrightarrow> CHR ''Z'' \<notin> set out)"
proof
  show "CHR ''Z'' \<in> set alphabet" by (simp add: alphabet_def)
  show "generate obj src = ((out, None), src') \<longrightarrow> CHR ''Z'' \<notin> set out"
  proof
    assume "generate obj src = ((out, None), src')"
    from generate_sound(2) [OF this] have "set out \<subseteq> set (take 51 alphabet)" .
    moreover have "CHR ''Z'' \<notin> set (take 51 alphabet)" by (simp add: alphabet_def)
    ultimately show "CHR ''Z'' \<notin> set out" by auto
  qed
qed

theorem generate_never_Z_witness:
  "generate \<lparr>Length = 1, Saved = True, CheckRecovery = False, Password = None, path = ''p''\<rparr>
     [Some 51] = ((''a'', None), [])
   \<and> CHR ''Z'' \<notin> set ''a''"
proof -
  have g: "generate \<lparr>Length = 1, Saved = True, CheckRecovery = False, Password = None, path = ''p''\<rparr>
     [Some 51] = ((''a'', None), [])"
    by (simp add: generate_def generate_loop.simps rand_Int_def alphabet_at_def alphabet_def)
  from generate_never_Z [of _ "[Some 51]" "''a''" "[]"] g show ?thesis by simp
qed

section \<open>The check predicate\<close>

text \<open>
  C2, as the code has it for a value of fewer than \<open>2 ^ 16\<close> bytes: \<open>check\<close> accepts the
  value if and only if the mode is token-only and the value is empty, or the mode is
  saved, the value has \<open>Length\<close> bytes and each byte is a letter of the alphabet.
  Otherwise it rejects: with "Expected empty token only!" in token-only mode, with the
  length mismatch in saved mode when the length differs, and else with the first byte
  that is not in the alphabet.
\<close>

theorem check_accepts_iff:
  assumes "length val < 65536"
  shows "(check obj val = None \<longleftrightarrow>
            (\<not> Saved obj \<and> val = []) \<or>
            (Saved obj \<and> length val = unat (Length obj) \<and> set val \<subseteq> set alphabet))
    \<and> (\<not> Saved obj \<and> val \<noteq> [] \<longrightarrow> check obj val = Some ErrExpectedEmptyToken)
    \<and> (Saved obj \<and> length val \<noteq> unat (Length obj) \<longrightarrow>
          check obj val = Some (ErrStringLength (Length obj)))
    \<and> (Saved obj \<and> length val = unat (Length obj) \<longrightarrow>
          check obj val = map_option ErrInvalidCharacter (find (\<lambda>c. c \<notin> set alphabet) val))"
  by (simp add: check_short [OF assms] find_None_subset)

theorem check_accepts_iff_witness:
  "length ''ab1Z'' < 65536
   \<and> check \<lparr>Length = 4, Saved = True, CheckRecovery = False, Password = None, path = ''p''\<rparr>
       ''ab1Z'' = Some (ErrInvalidCharacter CHR ''1'')
   \<and> check \<lparr>Length = 4, Saved = True, CheckRecovery = False, Password = None, path = ''p''\<rparr>
       ''abcZ'' = None"
proof -
  have l: "length ''ab1Z'' < 65536" and l': "length ''abcZ'' < 65536" by simp_all
  from check_accepts_iff [OF l, of "\<lparr>Length = 4, Saved = True, CheckRecovery = False, Password = None, path = ''p''\<rparr>"]
    check_accepts_iff [OF l', of "\<lparr>Length = 4, Saved = True, CheckRecovery = False, Password = None, path = ''p''\<rparr>"]
  show ?thesis by (simp add: alphabet_def)
qed

text \<open>
  The claim as stated fails twice. In token-only mode a non-empty value is rejected with
  a reason that names neither a length nor a character. And the length is compared as a
  \<open>uint16\<close>: a value of \<open>2 ^ 16\<close> bytes is accepted as the empty token, and in saved
  mode only the first \<open>Length\<close> bytes of a value of \<open>2 ^ 16 + Length\<close> bytes are checked.
\<close>

theorem check_counterexample:
  "check \<lparr>Length = 8, Saved = False, CheckRecovery = False, Password = None, path = ''p''\<rparr>
     ''a'' = Some ErrExpectedEmptyToken
   \<and> check \<lparr>Length = 8, Saved = False, CheckRecovery = False, Password = None, path = ''p''\<rparr>
       (replicate 65536 (CHR ''a'')) = None
   \<and> replicate 65536 (CHR ''a'') \<noteq> []
   \<and> check \<lparr>Length = 1, Saved = True, CheckRecovery = False, Password = None, path = ''p''\<rparr>
       (CHR ''a'' # replicate 65536 (CHR ''!'')) = None"
  by (simp add: check_def check_loop.simps alphabet_def)


section \<open>Writing and reading the token\<close>

text \<open>
  C7: a value made of letters of the alphabet, the empty token included, comes back as
  it was written: \<open>write\<close> stores the value followed by one newline, and \<open>read\<close>
  trims that newline away.
\<close>

theorem write_read_roundtrip:
  assumes "set v \<subseteq> set alphabet"
  shows "write obj v NoWriteFault fs = ((int (length v) + 1, None), fs(path obj \<mapsto> v @ newline))
     \<and> read obj NoReadFault (snd (write obj v NoWriteFault fs)) = (v, None)"
  by (simp add: write_def read_def newline_def TrimSpace_letters [OF assms, unfolded newline_def])

theorem write_read_roundtrip_witness:
  "set ''pSwD'' \<subseteq> set alphabet
   \<and> read \<lparr>Length = 4, Saved = True, CheckRecovery = False, Password = None, path = ''p''\<rparr>
       NoReadFault
       (snd (write \<lparr>Length = 4, Saved = True, CheckRecovery = False, Password = None, path = ''p''\<rparr>
          ''pSwD'' NoWriteFault Map.empty)) = (''pSwD'', None)
   \<and> read \<lparr>Length = 8, Saved = False, CheckRecovery = False, Password = None, path = ''p''\<rparr>
       NoReadFault
       (snd (write \<lparr>Length = 8, Saved = False, CheckRecovery = False, Password = None, path = ''p''\<rparr>
          [] NoWriteFault Map.empty)) = ([], None)"
proof -
  let ?saved = "\<lparr>Length = 4, Saved = True, CheckRecovery = False, Password = None, path = ''p''\<rparr>"
  let ?token = "\<lparr>Length = 8, Saved = False, CheckRecovery = False, Password = None, path = ''p''\<rparr>"
  have l: "set ''pSwD'' \<subseteq> set alphabet" by (simp add: alphabet_def)
  have e: "set [] \<subseteq> set alphabet" by simp
  have a: "read ?saved NoReadFault (snd (write ?saved ''pSwD'' NoWriteFault Map.empty))
      = (''pSwD'', None)"
    using write_read_roundtrip [OF l] by (rule conjunct2)
  have b: "read ?token NoReadFault (snd (write ?token [] NoWriteFault Map.empty)) = ([], None)"
    using write_read_roundtrip [OF e] by (rule conjunct2)
  from l a b show ?thesis by blast
qed

section \<open>CheckApply\<close>

subsection \<open>Nothing to do\<close>

text \<open>
  C1, as the code has it: when the token file exists and is read, \<open>check\<close> accepts its
  content, no refresh is pending and, in saved mode, the content is not empty and the
  password in memory is unset or equal to it, then \<open>CheckApply\<close> returns
  \<open>(true, nil)\<close> and leaves the resource, the files, the random reader and the log as they
  were; a second call on what the first one returned does the same.
\<close>

theorem CheckApply_idempotent:
  assumes "files w (path obj) = Some data"
    and "check obj (TrimSpace data) = None"
    and "Saved obj \<longrightarrow> TrimSpace data \<noteq> [] \<and>
           (Password obj = None \<or> Password obj = Some (TrimSpace data))"
  shows "CheckApply obj False True NoReadFault wflt w = ((True, None), obj, w)
    \<and> CheckApply (fst (snd (CheckApply obj False True NoReadFault wflt w))) False True
         NoReadFault wflt' (snd (snd (CheckApply obj False True NoReadFault wflt w)))
       = ((True, None), obj, w)"
  by (simp add: CheckApply_noop [OF assms])

theorem CheckApply_idempotent_witness:
  "files \<lparr>files = [''p'' \<mapsto> ''abcdefghijkl'' @ newline], rnd = [], logs = []\<rparr> ''p''
     = Some (''abcdefghijkl'' @ newline)
   \<and> check \<lparr>Length = 12, Saved = True, CheckRecovery = False, Password = Some ''abcdefghijkl'',
        path = ''p''\<rparr> (TrimSpace (''abcdefghijkl'' @ newline)) = None
   \<and> TrimSpace (''abcdefghijkl'' @ newline) = ''abcdefghijkl''
   \<and> CheckApply \<lparr>Length = 12, Saved = True, CheckRecovery = False, Password = Some ''abcdefghijkl'',
        path = ''p''\<rparr> False True NoReadFault NoWriteFault
        \<lparr>files = [''p'' \<mapsto> ''abcdefghijkl'' @ newline], rnd = [], logs = []\<rparr>
      = ((True, None),
         \<lparr>Length = 12, Saved = True, CheckRecovery = False, Password = Some ''abcdefghijkl'',
           path = ''p''\<rparr>,
         \<lparr>files = [''p'' \<mapsto> ''abcdefghijkl'' @ newline], rnd = [], logs = []\<rparr>)"
proof -
  let ?obj = "\<lparr>Length = 12, Saved = True, CheckRecovery = False, Password = Some ''abcdefghijkl'',
        path = ''p''\<rparr>"
  let ?w = "\<lparr>files = [''p'' \<mapsto> ''abcdefghijkl'' @ newline], rnd = [], logs = []\<rparr>"
  have t: "TrimSpace (''abcdefghijkl'' @ newline) = ''abcdefghijkl''"
    by (rule TrimSpace_letters) (simp add: alphabet_def)
  have f: "files ?w (path ?obj) = Some (''abcdefghijkl'' @ newline)" by simp
  have c: "check ?obj (TrimSpace (''abcdefghijkl'' @ newline)) = None"
    unfolding t by (simp add: check_short alphabet_def)
  have m: "Saved ?obj \<longrightarrow> TrimSpace (''abcdefghijkl'' @ newline) \<noteq> [] \<and>
      (Password ?obj = None \<or> Password ?obj = Some (TrimSpace (''abcdefghijkl'' @ newline)))"
    unfolding t by simp
  from CheckApply_idempotent [OF f c m, of NoWriteFault NoWriteFault] f c t
  show ?thesis by simp
qed

text \<open>
  The claim as stated leaves out the non-empty content in saved mode. With a length of 0
  in saved mode the empty token passes \<open>check\<close> and agrees with the memory, no refresh
  is pending, and yet \<open>CheckApply\<close> goes on to generate and fails.
\<close>

theorem CheckApply_idempotent_counterexample:
  "files \<lparr>files = [''p'' \<mapsto> newline], rnd = [Some 7], logs = []\<rparr> ''p'' = Some newline
   \<and> TrimSpace newline = []
   \<and> check \<lparr>Length = 0, Saved = True, CheckRecovery = False, Password = Some [], path = ''p''\<rparr>
        (TrimSpace newline) = None
   \<and> CheckApply \<lparr>Length = 0, Saved = True, CheckRecovery = False, Password = Some [], path = ''p''\<rparr>
        False True NoReadFault NoWriteFault \<lparr>files = [''p'' \<mapsto> newline], rnd = [Some 7], logs = []\<rparr>
      = ((False, Some (Wrapf ErrPasswordEmpty ''could not generate password'')),
         \<lparr>Length = 0, Saved = True, CheckRecovery = False, Password = Some [], path = ''p''\<rparr>,
         \<lparr>files = [''p'' \<mapsto> newline], rnd = [Some 7], logs = [LogGenerating]\<rparr>)"
  by (simp add: TrimSpace_newline CheckApply_def read_def check_def check_loop.simps decide_def
      apply_changes_def log_Printf_def generate_zero)

subsection \<open>Integrity recovery\<close>

text \<open>
  C5, as the code has it, for a token file whose content \<open>check\<close> rejects. Without
  recovery \<open>CheckApply\<close> returns the rejection wrapped in "check failed" and changes
  nothing. With recovery, when \<open>generate\<close> returns a password and the write does not
  fail, \<open>CheckApply\<close> logs the failed check, the generation and the write, keeps the
  password (of \<open>Length\<close> letters) in memory, writes the token (the password in saved mode,
  the empty token otherwise, which \<open>check\<close> accepts) and returns \<open>(false, nil)\<close>; the
  next call, with no refresh pending, returns \<open>(true, nil)\<close> and changes nothing.
\<close>

theorem CheckApply_integrity_recovery:
  assumes "files w (path obj) = Some data"
    and "check obj (TrimSpace data) = Some e"
  shows "(\<not> CheckRecovery obj \<longrightarrow>
            CheckApply obj refresh apply NoReadFault wflt w =
              ((False, Some (Wrapf e ''check failed'')), obj, w))
    \<and> (CheckRecovery obj \<and> generate obj (rnd w) = ((pw, None), src') \<longrightarrow>
          CheckApply obj refresh True NoReadFault NoWriteFault w =
            ((False, None), obj\<lparr>Password := Some pw\<rparr>,
             w\<lparr>files := (files w)(path obj \<mapsto> (if Saved obj then pw else []) @ newline),
               rnd := src',
               logs := logs w @ [LogIntegrityCheckFailed, LogGenerating, LogWriting]\<rparr>)
        \<and> length pw = unat (Length obj) \<and> set pw \<subseteq> set alphabet
        \<and> check (obj\<lparr>Password := Some pw\<rparr>) (if Saved obj then pw else []) = None
        \<and> CheckApply (obj\<lparr>Password := Some pw\<rparr>) False True NoReadFault wflt
             (w\<lparr>files := (files w)(path obj \<mapsto> (if Saved obj then pw else []) @ newline),
                rnd := src',
                logs := logs w @ [LogIntegrityCheckFailed, LogGenerating, LogWriting]\<rparr>)
            = ((True, None), obj\<lparr>Password := Some pw\<rparr>,
               w\<lparr>files := (files w)(path obj \<mapsto> (if Saved obj then pw else []) @ newline),
                 rnd := src',
                 logs := logs w @ [LogIntegrityCheckFailed, LogGenerating, LogWriting]\<rparr>))"
proof (intro conjI impI)
  assume "\<not> CheckRecovery obj"
  with assms show "CheckApply obj refresh apply NoReadFault wflt w =
      ((False, Some (Wrapf e ''check failed'')), obj, w)"
    by (rule CheckApply_no_recovery)
next
  assume h: "CheckRecovery obj \<and> generate obj (rnd w) = ((pw, None), src')"
  then have g: "generate obj (rnd w) = ((pw, None), src')" by simp
  let ?out = "if Saved obj then pw else []"
  let ?obj = "obj\<lparr>Password := Some pw\<rparr>"
  let ?w = "w\<lparr>files := (files w)(path obj \<mapsto> ?out @ newline), rnd := src',
         logs := logs w @ [LogIntegrityCheckFailed, LogGenerating, LogWriting]\<rparr>"
  from generate_sound [OF g] show len: "length pw = unat (Length obj)"
    and sub: "set pw \<subseteq> set alphabet"
    using set_take_subset by fastforce+
  note t = TrimSpace_letters [OF sub] TrimSpace_newline
  show c: "check ?obj ?out = None" by (rule generate_checks [OF g])
  show "CheckApply obj refresh True NoReadFault NoWriteFault w = ((False, None), ?obj, ?w)"
    using assms h by (simp add: CheckApply_recover_step)
  have f: "files ?w (path ?obj) = Some (?out @ newline)" by simp
  show "CheckApply ?obj False True NoReadFault wflt ?w = ((True, None), ?obj, ?w)"
  proof (rule CheckApply_noop [OF f])
    show "check ?obj (TrimSpace (?out @ newline)) = None"
      using c t by (cases "Saved obj") simp_all
    show "Saved ?obj \<longrightarrow> TrimSpace (?out @ newline) \<noteq> [] \<and>
        (Password ?obj = None \<or> Password ?obj = Some (TrimSpace (?out @ newline)))"
      using t generate_Inr(2) [OF g] by simp
  qed
qed

theorem CheckApply_integrity_recovery_witness:
  "files \<lparr>files = [''p'' \<mapsto> ''ab'' @ newline], rnd = [Some 22, Some 23, Some 24, Some 25], logs = []\<rparr> ''p''
     = Some (''ab'' @ newline)
   \<and> check \<lparr>Length = 4, Saved = True, CheckRecovery = True, Password = None, path = ''p''\<rparr>
       (TrimSpace (''ab'' @ newline)) = Some (ErrStringLength 4)
   \<and> generate \<lparr>Length = 4, Saved = True, CheckRecovery = True, Password = None, path = ''p''\<rparr>
       [Some 22, Some 23, Some 24, Some 25] = ((''wxyz'', None), [])
   \<and> CheckApply \<lparr>Length = 4, Saved = True, CheckRecovery = True, Password = None, path = ''p''\<rparr>
       False True NoReadFault NoWriteFault
       \<lparr>files = [''p'' \<mapsto> ''ab'' @ newline], rnd = [Some 22, Some 23, Some 24, Some 25], logs = []\<rparr>
     = ((False, None),
        \<lparr>Length = 4, Saved = True, CheckRecovery = True, Password = Some ''wxyz'', path = ''p''\<rparr>,
        \<lparr>files = [''p'' \<mapsto> ''wxyz'' @ newline], rnd = [],
          logs = [LogIntegrityCheckFailed, LogGenerating, LogWriting]\<rparr>)
   \<and> CheckApply \<lparr>Length = 4, Saved = True, CheckRecovery = True, Password = Some ''wxyz'', path = ''p''\<rparr>
       False True NoReadFault NoWriteFault
       \<lparr>files = [''p'' \<mapsto> ''wxyz'' @ newline], rnd = [],
         logs = [LogIntegrityCheckFailed, LogGenerating, LogWriting]\<rparr>
     = ((True, None),
        \<lparr>Length = 4, Saved = True, CheckRecovery = True, Password = Some ''wxyz'', path = ''p''\<rparr>,
        \<lparr>files = [''p'' \<mapsto> ''wxyz'' @ newline], rnd = [],
          logs = [LogIntegrityCheckFailed, LogGenerating, LogWriting]\<rparr>)"
proof -
  let ?obj = "\<lparr>Length = 4, Saved = True, CheckRecovery = True, Password = None, path = ''p''\<rparr>"
  let ?w = "\<lparr>files = [''p'' \<mapsto> ''ab'' @ newline], rnd = [Some 22, Some 23, Some 24, Some 25], logs = []\<rparr>"
  have t: "TrimSpace (''ab'' @ newline) = ''ab''"
    by (rule TrimSpace_letters) (simp add: alphabet_def)
  have f: "files ?w (path ?obj) = Some (''ab'' @ newline)" by simp
  have c: "check ?obj (TrimSpace (''ab'' @ newline)) = Some (ErrStringLength 4)"
    unfolding t by (simp add: check_short)
  have g: "generate ?obj (rnd ?w) = ((''wxyz'', None), [])"
    by (simp add: generate_def generate_loop.simps rand_Int_def alphabet_at_def alphabet_def)
  from CheckApply_integrity_recovery [OF f c, where pw = "''wxyz''" and src' = "[]"
      and refresh = False and wflt = NoWriteFault] f c g
  show ?thesis by simp
qed

text \<open>
  The claim as stated promises the recovery for every resource. With a length of 0
  \<open>generate\<close> refuses the empty password, so the call fails and the file stays as it was.
\<close>

theorem CheckApply_integrity_recovery_counterexample:
  "check \<lparr>Length = 0, Saved = True, CheckRecovery = True, Password = None, path = ''p''\<rparr>
       (TrimSpace (''abc'' @ newline)) = Some (ErrStringLength 0)
   \<and> CheckApply \<lparr>Length = 0, Saved = True, CheckRecovery = True, Password = None, path = ''p''\<rparr>
       False True NoReadFault NoWriteFault
       \<lparr>files = [''p'' \<mapsto> ''abc'' @ newline], rnd = [Some 1, Some 2, Some 3], logs = []\<rparr>
     = ((False, Some (Wrapf ErrPasswordEmpty ''could not generate password'')),
        \<lparr>Length = 0, Saved = True, CheckRecovery = True, Password = None, path = ''p''\<rparr>,
        \<lparr>files = [''p'' \<mapsto> ''abc'' @ newline], rnd = [Some 1, Some 2, Some 3],
          logs = [LogIntegrityCheckFailed, LogGenerating]\<rparr>)"
  by (simp add: run)

subsection \<open>Dry run\<close>

text \<open>
  C6, as the code has it. \<open>CheckApply\<close> without \<open>apply\<close> never changes the files, the
  resource or the random reader, whatever it returns. When there is work to do (the
  token is missing, \<open>check\<close> rejects it, a refresh is requested, the token is empty in
  saved mode, or the password in memory differs from it in saved mode) it returns
  \<open>checkOK = false\<close>. The error is \<open>nil\<close> then, unless reading the token failed for
  another reason than a missing file, or \<open>check\<close> rejected the token with recovery
  disabled: there the call returns that error, wrapped in "unknown read error" or in
  "check failed".
\<close>

theorem CheckApply_dry_run:
  assumes "read obj rflt (files w) = (password, rerr)"
  shows "fst (snd (CheckApply obj refresh False rflt wflt w)) = obj
    \<and> files (snd (snd (CheckApply obj refresh False rflt wflt w))) = files w
    \<and> rnd (snd (snd (CheckApply obj refresh False rflt wflt w))) = rnd w
    \<and> (rerr = Some ErrNotExist \<or> check obj password \<noteq> None \<or> refresh
         \<or> (Saved obj \<and> password = [])
         \<or> (Saved obj \<and> Password obj \<noteq> None \<and> Password obj \<noteq> Some password) \<longrightarrow>
        fst (fst (CheckApply obj refresh False rflt wflt w)) = False
        \<and> ((rerr = None \<or> rerr = Some ErrNotExist) \<and>
             (rerr = None \<and> check obj password \<noteq> None \<longrightarrow> CheckRecovery obj) \<longrightarrow>
             snd (fst (CheckApply obj refresh False rflt wflt w)) = None))
    \<and> (rerr = Some e \<and> \<not> IsNotExist e \<longrightarrow>
          fst (CheckApply obj refresh False rflt wflt w) = (False, Some (Wrapf e ''unknown read error'')))
    \<and> (rerr = None \<and> check obj password = Some ce \<and> \<not> CheckRecovery obj \<longrightarrow>
          fst (CheckApply obj refresh False rflt wflt w) = (False, Some (Wrapf ce ''check failed'')))"
  using assms
  by (auto simp: CheckApply_def decide_def log_Printf_def split: option.splits)

theorem CheckApply_dry_run_witness:
  "read \<lparr>Length = 8, Saved = False, CheckRecovery = False, Password = None, path = ''p''\<rparr>
     NoReadFault (files \<lparr>files = Map.empty, rnd = [Some 3], logs = []\<rparr>) = ([], Some ErrNotExist)
   \<and> CheckApply \<lparr>Length = 8, Saved = False, CheckRecovery = False, Password = None, path = ''p''\<rparr>
       False False NoReadFault NoWriteFault \<lparr>files = Map.empty, rnd = [Some 3], logs = []\<rparr>
     = ((False, None),
        \<lparr>Length = 8, Saved = False, CheckRecovery = False, Password = None, path = ''p''\<rparr>,
        \<lparr>files = Map.empty, rnd = [Some 3], logs = []\<rparr>)
   \<and> read \<lparr>Length = 8, Saved = False, CheckRecovery = False, Password = None, path = ''p''\<rparr>
       NoReadFault (files \<lparr>files = [''p'' \<mapsto> ''abc'' @ newline], rnd = [], logs = []\<rparr>)
       = (''abc'', None)
   \<and> check \<lparr>Length = 8, Saved = False, CheckRecovery = False, Password = None, path = ''p''\<rparr>
       ''abc'' = Some ErrExpectedEmptyToken
   \<and> fst (CheckApply \<lparr>Length = 8, Saved = False, CheckRecovery = False, Password = None, path = ''p''\<rparr>
       True False NoReadFault NoWriteFault
       \<lparr>files = [''p'' \<mapsto> ''abc'' @ newline], rnd = [], logs = []\<rparr>)
       = (False, Some (Wrapf ErrExpectedEmptyToken ''check failed''))
   \<and> files (snd (snd (CheckApply
       \<lparr>Length = 8, Saved = False, CheckRecovery = False, Password = None, path = ''p''\<rparr>
       True False NoReadFault NoWriteFault
       \<lparr>files = [''p'' \<mapsto> ''abc'' @ newline], rnd = [], logs = []\<rparr>)))
       = [''p'' \<mapsto> ''abc'' @ newline]"
proof -
  let ?obj = "\<lparr>Length = 8, Saved = False, CheckRecovery = False, Password = None, path = ''p''\<rparr>"
  let ?w = "\<lparr>files = Map.empty, rnd = [Some 3], logs = []\<rparr>"
  let ?v = "\<lparr>files = [''p'' \<mapsto> ''abc'' @ newline], rnd = [], logs = []\<rparr>"
  have r: "read ?obj NoReadFault (files ?w) = ([], Some ErrNotExist)"
    by (simp add: read_def)
  have "fst (CheckApply ?obj False False NoReadFault NoWriteFault ?w) = (False, None)"
    using CheckApply_dry_run [OF r, of False NoWriteFault] by (simp add: prod_eq_iff)
  moreover have "snd (CheckApply ?obj False False NoReadFault NoWriteFault ?w) = (?obj, ?w)"
    by (simp add: CheckApply_def read_def decide_def)
  ultimately have a: "CheckApply ?obj False False NoReadFault NoWriteFault ?w = ((False, None), ?obj, ?w)"
    by (simp add: prod_eq_iff)
  have t: "TrimSpace (''abc'' @ newline) = ''abc''"
    by (rule TrimSpace_letters) (simp add: alphabet_def)
  have r2: "read ?obj NoReadFault (files ?v) = (''abc'', None)"
    using read_ok [of ?v ?obj "''abc'' @ newline"] unfolding t by simp
  have c: "check ?obj ''abc'' = Some ErrExpectedEmptyToken"
    by (simp add: check_short)
  from CheckApply_dry_run [OF r2, of True NoWriteFault _ ErrExpectedEmptyToken] c
  have b: "fst (CheckApply ?obj True False NoReadFault NoWriteFault ?v)
        = (False, Some (Wrapf ErrExpectedEmptyToken ''check failed''))"
    and f: "files (snd (snd (CheckApply ?obj True False NoReadFault NoWriteFault ?v)))
        = [''p'' \<mapsto> ''abc'' @ newline]"
    by simp_all
  from r a r2 c b f show ?thesis by blast
qed

text \<open>
  The claim as stated counts every requested refresh as pending work and promises
  \<open>nil\<close> for it. When the stored value fails \<open>check\<close> and recovery is disabled, the
  call returns the error of the check before the refresh is looked at; \<open>checkOK\<close> is
  false and the files are untouched all the same.
\<close>

theorem CheckApply_dry_run_counterexample:
  "CheckApply \<lparr>Length = 8, Saved = False, CheckRecovery = False, Password = None, path = ''p''\<rparr>
       True False NoReadFault NoWriteFault
       \<lparr>files = [''p'' \<mapsto> ''abc'' @ newline], rnd = [], logs = []\<rparr>
     = ((False, Some (Wrapf ErrExpectedEmptyToken ''check failed'')),
        \<lparr>Length = 8, Saved = False, CheckRecovery = False, Password = None, path = ''p''\<rparr>,
        \<lparr>files = [''p'' \<mapsto> ''abc'' @ newline], rnd = [], logs = []\<rparr>)"
  by (simp add: run)

subsection \<open>Failures\<close>

text \<open>
  C8, as the code has it: when \<open>CheckApply\<close> fails, either the files are as they were
  (the read, the check, the generation or the creation of the file failed), or the write
  failed after \<open>n\<close> bytes and the file, truncated by then, holds the first \<open>n\<close> bytes of
  the new content, or only the final sync failed and the file holds the new content in
  full. The new content is the password now in memory (the empty token in token-only
  mode) followed by the newline.
\<close>

theorem CheckApply_failure_storage:
  assumes "CheckApply obj refresh apply rflt wflt w = ((ok, Some e), obj', w')"
  shows "ok = False \<and>
    (files w' = files w \<or>
     (\<exists>p. Password obj' = Some p \<and>
        ((\<exists>n. wflt = WriteFault n \<and>
            files w' = (files w)(path obj \<mapsto> take n ((if Saved obj then p else []) @ newline))) \<or>
         (wflt = SyncFault \<and>
            files w' = (files w)(path obj \<mapsto> (if Saved obj then p else []) @ newline)))))"
proof -
  obtain password rerr where r: "read obj rflt (files w) = (password, rerr)"
    by (metis prod.exhaust)
  show ?thesis
  proof (cases rerr)
    case (Some re)
    show ?thesis
    proof (cases "IsNotExist re")
      case False
      with assms r Some show ?thesis by (simp add: CheckApply_def)
    next
      case True
      with assms r Some
      have "decide obj refresh apply password False False True wflt w = ((ok, Some e), obj', w')"
        by (simp add: CheckApply_def)
      then show ?thesis by (rule decide_fails)
    qed
  next
    case None
    show ?thesis
    proof (cases "check obj password")
      case cn: None
      with assms r None
      have "decide obj refresh apply password True False False wflt w = ((ok, Some e), obj', w')"
        by (simp add: CheckApply_def)
      then show ?thesis by (rule decide_fails)
    next
      case (Some ce)
      show ?thesis
      proof (cases "CheckRecovery obj")
        case False
        with assms r None Some show ?thesis by (simp add: CheckApply_def)
      next
        case True
        with assms r None Some
        have "decide obj refresh apply password True True True wflt
            (log_Printf LogIntegrityCheckFailed w) = ((ok, Some e), obj', w')"
          by (simp add: CheckApply_def)
        from decide_fails [OF this] show ?thesis by (simp add: log_Printf_def)
      qed
    qed
  qed
qed

theorem CheckApply_failure_storage_witness:
  "CheckApply \<lparr>Length = 4, Saved = True, CheckRecovery = False, Password = Some ''abcd'', path = ''p''\<rparr>
      True True NoReadFault SyncFault
      \<lparr>files = [''p'' \<mapsto> ''abcd'' @ newline], rnd = [Some 22, Some 23, Some 24, Some 25], logs = []\<rparr>
    = ((False, Some (Wrapf ErrIO ''can't write to file'')),
       \<lparr>Length = 4, Saved = True, CheckRecovery = False, Password = Some ''wxyz'', path = ''p''\<rparr>,
       \<lparr>files = [''p'' \<mapsto> ''wxyz'' @ newline], rnd = [], logs = [LogGenerating, LogWriting]\<rparr>)
   \<and> (files \<lparr>files = [''p'' \<mapsto> ''wxyz'' @ newline], rnd = [], logs = [LogGenerating, LogWriting]\<rparr>
        = [''p'' \<mapsto> ''abcd'' @ newline]
      \<or> files \<lparr>files = [''p'' \<mapsto> ''wxyz'' @ newline], rnd = [], logs = [LogGenerating, LogWriting]\<rparr>
        = [''p'' \<mapsto> ''abcd'' @ newline, ''p'' \<mapsto> ''wxyz'' @ newline])"
proof -
  have r: "CheckApply \<lparr>Length = 4, Saved = True, CheckRecovery = False, Password = Some ''abcd'', path = ''p''\<rparr>
      True True NoReadFault SyncFault
      \<lparr>files = [''p'' \<mapsto> ''abcd'' @ newline], rnd = [Some 22, Some 23, Some 24, Some 25], logs = []\<rparr>
    = ((False, Some (Wrapf ErrIO ''can't write to file'')),
       \<lparr>Length = 4, Saved = True, CheckRecovery = False, Password = Some ''wxyz'', path = ''p''\<rparr>,
       \<lparr>files = [''p'' \<mapsto> ''wxyz'' @ newline], rnd = [], logs = [LogGenerating, LogWriting]\<rparr>)"
    by (simp add: run)
  from CheckApply_failure_storage [OF r] r show ?thesis by simp
qed

text \<open>
  The claim as stated fails when the write fails part-way: \<open>os.Create\<close> has truncated
  the file by then. Here the old password \<open>abcd\<close> is gone and of the new one, \<open>wxyz\<close>,
  only \<open>wx\<close> is in the file, which the next call reads back.
\<close>

theorem CheckApply_failure_storage_counterexample:
  "CheckApply \<lparr>Length = 4, Saved = True, CheckRecovery = False, Password = Some ''abcd'', path = ''p''\<rparr>
      True True NoReadFault (WriteFault 2)
      \<lparr>files = [''p'' \<mapsto> ''abcd'' @ newline], rnd = [Some 22, Some 23, Some 24, Some 25], logs = []\<rparr>
    = ((False, Some (Wrapf (Wrapf ErrIO ''can't write file'') ''can't write to file'')),
       \<lparr>Length = 4, Saved = True, CheckRecovery = False, Password = Some ''wxyz'', path = ''p''\<rparr>,
       \<lparr>files = [''p'' \<mapsto> ''wx''], rnd = [], logs = [LogGenerating, LogWriting]\<rparr>)
   \<and> read \<lparr>Length = 4, Saved = True, CheckRecovery = False, Password = Some ''wxyz'', path = ''p''\<rparr>
        NoReadFault [''p'' \<mapsto> ''wx''] = (''wx'', None)"
  by (simp add: run)

subsection \<open>A length of 0\<close>

text \<open>
  C9: with a length of 0 \<open>generate\<close> always fails with "password is empty", whatever the
  random reader gives. So when the token file is missing, \<open>CheckApply\<close> with \<open>apply\<close>
  fails (at the generation, or before it when the file cannot be opened) and the file
  system is as it was: the token is never created.
\<close>

theorem generate_zero_length_fails:
  assumes "Length obj = 0"
  shows "generate obj src = (([], Some ErrPasswordEmpty), src)
    \<and> (files w (path obj) = None \<longrightarrow>
         fst (CheckApply obj refresh True rflt wflt w) =
           (False, Some (if rflt = OpenFault then Wrapf ErrIO ''unknown read error''
                         else Wrapf ErrPasswordEmpty ''could not generate password''))
         \<and> files (snd (snd (CheckApply obj refresh True rflt wflt w))) = files w)"
  using assms
  by (auto simp: generate_zero CheckApply_def read_missing decide_def apply_changes_def log_Printf_def)

theorem generate_zero_length_fails_witness:
  "Length \<lparr>Length = 0, Saved = False, CheckRecovery = False, Password = None, path = ''p''\<rparr> = 0
   \<and> files \<lparr>files = Map.empty, rnd = [Some 5, Some 6], logs = []\<rparr> ''p'' = None
   \<and> generate \<lparr>Length = 0, Saved = False, CheckRecovery = False, Password = None, path = ''p''\<rparr>
       [Some 5, Some 6] = (([], Some ErrPasswordEmpty), [Some 5, Some 6])
   \<and> fst (CheckApply \<lparr>Length = 0, Saved = False, CheckRecovery = False, Password = None, path = ''p''\<rparr>
       False True NoReadFault NoWriteFault \<lparr>files = Map.empty, rnd = [Some 5, Some 6], logs = []\<rparr>)
     = (False, Some (Wrapf ErrPasswordEmpty ''could not generate password''))
   \<and> files (snd (snd (CheckApply
       \<lparr>Length = 0, Saved = False, CheckRecovery = False, Password = None, path = ''p''\<rparr>
       False True NoReadFault NoWriteFault \<lparr>files = Map.empty, rnd = [Some 5, Some 6], logs = []\<rparr>)))
     = Map.empty"
proof -
  let ?obj = "\<lparr>Length = 0, Saved = False, CheckRecovery = False, Password = None, path = ''p''\<rparr>"
  let ?w = "\<lparr>files = Map.empty, rnd = [Some 5, Some 6], logs = []\<rparr>"
  have l: "Length ?obj = 0" by simp
  from generate_zero_length_fails [OF l, of "[Some 5, Some 6]" ?w False NoReadFault NoWriteFault]
  show ?thesis by simp
qed


end
